theory Spec2Isabelle
  imports Main
begin

section \<open>Python values used by the notebook helpers\<close>

text \<open>
  The helpers of \<^verbatim>\<open>02-language-model.ipynb\<close> work on Python strings and on one
  unbounded integer counter.  A string is a \<^typ>\<open>string\<close>; a one-character string
  such as \<^verbatim>\<open>cigar_str[i]\<close> is a singleton list, and the initial \<^verbatim>\<open>''\<close> is the empty
  list.  The counter is an \<^typ>\<open>int\<close>.
\<close>

definition digit_char :: "nat \<Rightarrow> char" where
  "digit_char d = ''0123456789'' ! d"

text \<open>Python's \<^verbatim>\<open>str\<close> on a non-negative integer: decimal, no leading zero.\<close>

fun str_nat :: "nat \<Rightarrow> string" where
  "str_nat n = (if n < 10 then [digit_char n] else str_nat (n div 10) @ [digit_char (n mod 10)])"

declare str_nat.simps [simp del]

text \<open>Python's \<^verbatim>\<open>str\<close> on any integer: a minus sign in front of a negative one.\<close>

definition str_int :: "int \<Rightarrow> string" where
  "str_int i = (if i < 0 then CHR ''-'' # str_nat (nat (- i)) else str_nat (nat i))"


section \<open>\<^verbatim>\<open>condense_cigar\<close>\<close>

text \<open>The three local variables of \<^verbatim>\<open>condense_cigar\<close>.\<close>

record cigar_state =
  condensed_cigar :: string
  current_state :: string
  count :: int

text \<open>The body of the \<^verbatim>\<open>for\<close> loop, with \<open>c\<close> the character \<^verbatim>\<open>cigar_str[i]\<close>.\<close>

definition condense_body :: "char \<Rightarrow> cigar_state \<Rightarrow> cigar_state" where
  "condense_body c st =
     (if [c] = current_state st then st\<lparr>count := count st + 1\<rparr>
      else
        (let st1 = (if count st > 0
                    then st\<lparr>condensed_cigar :=
                              condensed_cigar st @ str_int (count st) @ current_state st\<rparr>
                    else st)
         in st1\<lparr>current_state := [c], count := 1\<rparr>))"

text \<open>
  \<^verbatim>\<open>for i in range(len(cigar_str))\<close> runs the body at the indices \<open>0, \<dots>, len - 1\<close>,
  all of them in range; after the loop the pending run is appended whatever the counter is.
\<close>

definition condense_cigar :: "string \<Rightarrow> string" where
  "condense_cigar cigar_str =
     (let st = fold (\<lambda>i. condense_body (cigar_str ! i)) [0..<length cigar_str]
                 \<lparr>condensed_cigar = [], current_state = [], count = 0\<rparr>
      in condensed_cigar st @ str_int (count st) @ current_state st)"


section \<open>\<^verbatim>\<open>tm_to_cigar\<close>\<close>

text \<open>The \<^verbatim>\<open>if\<close>/\<^verbatim>\<open>elif\<close> chain of the loop body; there is no \<^verbatim>\<open>else\<close> branch.\<close>

definition tm_body :: "char \<Rightarrow> string \<Rightarrow> string" where
  "tm_body state cigar =
     (if state = CHR '':'' then cigar @ ''M''
      else if state = CHR ''1'' then cigar @ ''I''
      else if state = CHR ''2'' then cigar @ ''D''
      else cigar)"

text \<open>The keyword parameter \<^verbatim>\<open>condensed\<close> is accepted and never read.\<close>

definition tm_to_cigar :: "string \<Rightarrow> bool \<Rightarrow> string" where
  "tm_to_cigar tm_alignment_string condensed = fold tm_body tm_alignment_string []"


section \<open>\<^verbatim>\<open>load_vectors\<close>\<close>

text \<open>
  \<^verbatim>\<open>np.load\<close> and \<^verbatim>\<open>ProteinVector\<close> belong to numpy and scikit-bio, so both are
  parameters of the model.  The archive reader fails or returns the archive, a map from
  field names to the rows stored under them; indexing the archive with a field it does
  not hold raises \<^verbatim>\<open>KeyError\<close>.  The constructor validates its arguments: it returns
  the object it builds or raises.  Rows, sequence records and the objects built are
  opaque values.
\<close>

datatype py_error = KeyError | OSError | ValueError

type_synonym 'v npz_file = "string \<rightharpoonup> 'v list"

text \<open>
  The list comprehension calls the constructor on the pairs in order; the first call
  that raises ends the comprehension with that exception.
\<close>

fun protein_vectors_of ::
  "('v \<Rightarrow> 's \<Rightarrow> py_error + 'p) \<Rightarrow> ('v \<times> 's) list \<Rightarrow> py_error + 'p list" where
  "protein_vectors_of protein_vector [] = Inr []"
| "protein_vectors_of protein_vector ((vector, sequence) # rest) =
     (case protein_vector vector sequence of
        Inl e \<Rightarrow> Inl e
      | Inr p \<Rightarrow>
          (case protein_vectors_of protein_vector rest of
             Inl e \<Rightarrow> Inl e
           | Inr ps \<Rightarrow> Inr (p # ps)))"

definition load_vectors ::
  "('v \<Rightarrow> 's \<Rightarrow> py_error + 'p) \<Rightarrow> (string \<Rightarrow> py_error + 'v npz_file) \<Rightarrow>
     string \<Rightarrow> 's list \<Rightarrow> py_error + 'p list" where
  "load_vectors protein_vector np_load file_path sequence_list =
     (case np_load file_path of
        Inl e \<Rightarrow> Inl e
      | Inr data \<Rightarrow>
          (case data ''embeddings'' of
             None \<Rightarrow> Inl KeyError
           | Some vectors \<Rightarrow> protein_vectors_of protein_vector (zip vectors sequence_list)))"

text \<open>
  Concrete collaborators for the closed examples.  \<open>skbio_protein_vector\<close> does to the
  sequence what scikit-bio's constructor does: blanks are removed, and a character
  outside the protein alphabet (amino acids, degenerate codes, gaps and stop) raises
  \<^verbatim>\<open>ValueError\<close>.  The object built is represented by the row and the cleaned sequence.
  \<open>example_np_load\<close> knows one archive, with three rows under \<^verbatim>\<open>embeddings\<close>.
\<close>

definition protein_alphabet :: string where
  "protein_alphabet = ''ACDEFGHIKLMNOPQRSTUVWYBJXZ-.*''"

definition skbio_protein_vector :: "int list \<Rightarrow> string \<Rightarrow> py_error + (int list \<times> string)" where
  "skbio_protein_vector vector sequence =
     (let cleaned = filter (\<lambda>c. c \<noteq> CHR '' '') sequence
      in if set cleaned \<subseteq> set protein_alphabet then Inr (vector, cleaned)
         else Inl ValueError)"

definition example_rows :: "int list list" where
  "example_rows = [[1, 2], [3, 4], [5, 6]]"

definition example_data :: "int list npz_file" where
  "example_data = [''embeddings'' \<mapsto> example_rows]"

definition example_np_load :: "string \<Rightarrow> py_error + int list npz_file" where
  "example_np_load file_path =
     (if file_path = ''outputs/pdb_hits_output.npz'' then Inr example_data else Inl OSError)"


section \<open>Tokens and their expansion\<close>

text \<open>
  A count-symbol token is a pair of a count and a symbol.  It is written as the decimal
  count followed by the symbol, and it expands to that many repetitions of the symbol.
\<close>

type_synonym token = "nat \<times> char"

definition render_token :: "token \<Rightarrow> string" where
  "render_token t = str_int (int (fst t)) @ [snd t]"

definition render_tokens :: "token list \<Rightarrow> string" where
  "render_tokens ts = concat (map render_token ts)"

definition is_digit :: "char \<Rightarrow> bool" where
  "is_digit c = (c \<in> set ''0123456789'')"

definition digit_val :: "char \<Rightarrow> nat" where
  "digit_val c = of_char c - 48"

text \<open>
  Expansion is not a function of the notebook; it is the reading of a condensed string
  that the round-trip property refers to.  The string is read left to right: digits
  accumulate the count, and the first character that is no digit is the symbol, repeated
  that many times.
\<close>

fun expand_from :: "nat \<Rightarrow> string \<Rightarrow> string" where
  "expand_from n [] = []"
| "expand_from n (c # cs) =
     (if is_digit c then expand_from (10 * n + digit_val c) cs
      else replicate n c @ expand_from 0 cs)"

definition expand_cigar :: "string \<Rightarrow> string" where
  "expand_cigar s = expand_from 0 s"

text \<open>
  The maximal runs of a string: \<open>runs_from c n xs\<close> are the runs of \<open>xs\<close> when a run
  of \<open>n\<close> characters \<open>c\<close> is pending.
\<close>

fun runs_from :: "char \<Rightarrow> nat \<Rightarrow> string \<Rightarrow> token list" where
  "runs_from c n [] = [(n, c)]"
| "runs_from c n (x # xs) =
     (if x = c then runs_from c (Suc n) xs else (n, c) # runs_from x 1 xs)"

definition cigar_runs :: "string \<Rightarrow> token list" where
  "cigar_runs s = (case s of [] \<Rightarrow> [] | c # cs \<Rightarrow> runs_from c 1 cs)"


section \<open>Properties of \<^verbatim>\<open>tm_to_cigar\<close>\<close>

text \<open>
  The accumulator of the loop only ever grows at its end, so the output for a string is
  the output for its first character followed by the output for the rest.
\<close>

lemma tm_fold_acc: "fold tm_body s acc = acc @ fold tm_body s []"
proof (induction s arbitrary: acc)
  case Nil
  show ?case by simp
next
  case (Cons c s)
  have "fold tm_body (c # s) acc = tm_body c acc @ fold tm_body s []"
    using Cons.IH [of "tm_body c acc"] by simp
  moreover have "fold tm_body (c # s) [] = tm_body c [] @ fold tm_body s []"
    using Cons.IH [of "tm_body c []"] by simp
  moreover have "tm_body c acc = acc @ tm_body c []"
    by (simp add: tm_body_def)
  ultimately show ?case by simp
qed

lemma tm_to_cigar_Nil: "tm_to_cigar [] b = []"
  by (simp add: tm_to_cigar_def)

lemma tm_to_cigar_Cons: "tm_to_cigar (c # s) b = tm_body c [] @ tm_to_cigar s b"
  using tm_fold_acc [of s "tm_body c []"] by (simp add: tm_to_cigar_def)

lemma tm_to_cigar_append: "tm_to_cigar (s @ t) b = tm_to_cigar s b @ tm_to_cigar t b"
  by (induction s) (simp_all add: tm_to_cigar_Nil tm_to_cigar_Cons)

lemma tm_to_cigar_filter:
  "tm_to_cigar (filter (\<lambda>c. c \<in> {CHR '':'', CHR ''1'', CHR ''2''}) s) b = tm_to_cigar s b"
  by (induction s) (simp_all add: tm_to_cigar_Nil tm_to_cigar_Cons tm_body_def)

lemma tm_to_cigar_map:
  "set s \<subseteq> {CHR '':'', CHR ''1'', CHR ''2''} \<Longrightarrow>
   tm_to_cigar s b =
     map (\<lambda>c. if c = CHR '':'' then CHR ''M'' else if c = CHR ''1'' then CHR ''I'' else CHR ''D'') s"
  by (induction s) (auto simp add: tm_to_cigar_Nil tm_to_cigar_Cons tm_body_def)

text \<open>
  Claim C3.  When every character of the input is one of \<^verbatim>\<open>:\<close>, \<^verbatim>\<open>1\<close>, \<^verbatim>\<open>2\<close>, the
  output of \<^verbatim>\<open>tm_to_cigar\<close> has the length of the input, and at every position a
  \<^verbatim>\<open>:\<close> has become \<^verbatim>\<open>M\<close>, a \<^verbatim>\<open>1\<close> has become \<^verbatim>\<open>I\<close> and a \<^verbatim>\<open>2\<close> has become \<^verbatim>\<open>D\<close>.
\<close>

theorem tm_to_cigar_recognized:
  assumes "set s \<subseteq> {CHR '':'', CHR ''1'', CHR ''2''}"
  shows "length (tm_to_cigar s b) = length s \<and>
         (\<forall>i<length s.
            (s ! i = CHR '':'' \<longrightarrow> tm_to_cigar s b ! i = CHR ''M'') \<and>
            (s ! i = CHR ''1'' \<longrightarrow> tm_to_cigar s b ! i = CHR ''I'') \<and>
            (s ! i = CHR ''2'' \<longrightarrow> tm_to_cigar s b ! i = CHR ''D''))"
  by (simp add: tm_to_cigar_map [OF assms])

theorem tm_to_cigar_recognized_witness:
  "set '':12:'' \<subseteq> {CHR '':'', CHR ''1'', CHR ''2''} \<and>
   length (tm_to_cigar '':12:'' False) = 4 \<and>
   tm_to_cigar '':12:'' False ! 0 = CHR ''M'' \<and>
   tm_to_cigar '':12:'' False ! 1 = CHR ''I'' \<and>
   tm_to_cigar '':12:'' False ! 2 = CHR ''D'' \<and>
   tm_to_cigar '':12:'' False ! 3 = CHR ''M''"
proof -
  have h: "set '':12:'' \<subseteq> {CHR '':'', CHR ''1'', CHR ''2''}" by simp
  note r = tm_to_cigar_recognized [OF h, of False]
  note p = r [THEN conjunct2, rule_format]
  have "length (tm_to_cigar '':12:'' False) = 4" using r by simp
  moreover have "tm_to_cigar '':12:'' False ! 0 = CHR ''M''" using p [of 0] by simp
  moreover have "tm_to_cigar '':12:'' False ! 1 = CHR ''I''" using p [of 1] by simp
  moreover have "tm_to_cigar '':12:'' False ! 2 = CHR ''D''" using p [of 2] by simp
  moreover have "tm_to_cigar '':12:'' False ! 3 = CHR ''M''" using p [of 3] by simp
  ultimately show ?thesis using h by blast
qed

text \<open>
  Claim C4.  A character outside \<^verbatim>\<open>:\<close>, \<^verbatim>\<open>1\<close>, \<^verbatim>\<open>2\<close> produces no output: alone it
  gives the empty string, anywhere in a string it can be deleted without changing the
  result, and \<^verbatim>\<open>tm_to_cigar\<close> of a string is \<^verbatim>\<open>tm_to_cigar\<close> of that string with all
  unrecognized characters removed.
\<close>

theorem tm_to_cigar_drops_unrecognized:
  "tm_to_cigar s b = tm_to_cigar (filter (\<lambda>c. c \<in> {CHR '':'', CHR ''1'', CHR ''2''}) s) b \<and>
   (c \<notin> {CHR '':'', CHR ''1'', CHR ''2''} \<longrightarrow>
      tm_to_cigar [c] b = [] \<and> tm_to_cigar (xs @ c # ys) b = tm_to_cigar (xs @ ys) b)"
proof (intro conjI impI)
  show "tm_to_cigar s b = tm_to_cigar (filter (\<lambda>c. c \<in> {CHR '':'', CHR ''1'', CHR ''2''}) s) b"
    by (rule tm_to_cigar_filter [symmetric])
next
  assume "c \<notin> {CHR '':'', CHR ''1'', CHR ''2''}"
  then show "tm_to_cigar [c] b = []"
    by (simp add: tm_to_cigar_Cons tm_to_cigar_Nil tm_body_def)
  then show "tm_to_cigar (xs @ c # ys) b = tm_to_cigar (xs @ ys) b"
    using tm_to_cigar_append [of xs "[c] @ ys" b] tm_to_cigar_append [of "[c]" ys b]
    by (simp add: tm_to_cigar_append)
qed

theorem tm_to_cigar_drops_unrecognized_witness:
  "tm_to_cigar ''a:x1'' False = tm_to_cigar '':1'' False \<and>
   CHR ''x'' \<notin> {CHR '':'', CHR ''1'', CHR ''2''} \<and>
   tm_to_cigar ''x'' False = [] \<and>
   tm_to_cigar ('':'' @ CHR ''x'' # ''2'') False = tm_to_cigar '':2'' False"
  using tm_to_cigar_drops_unrecognized [of "''a:x1''" False "CHR ''x''" "'':''" "''2''"]
  by simp

text \<open>
  Claim C7.  The substitution carries no state from one character to the next:
  \<^verbatim>\<open>tm_to_cigar\<close> of a concatenation is the concatenation of the two results.
\<close>

theorem tm_to_cigar_concat: "tm_to_cigar (s @ t) b = tm_to_cigar s b @ tm_to_cigar t b"
  by (rule tm_to_cigar_append)

text \<open>
  Claim C9.  The keyword parameter \<^verbatim>\<open>condensed\<close> has no effect: the result with
  \<^verbatim>\<open>condensed=True\<close> is the result with \<^verbatim>\<open>condensed=False\<close>.
\<close>

theorem tm_to_cigar_condensed_ignored: "tm_to_cigar s True = tm_to_cigar s False"
  by (simp add: tm_to_cigar_def)


section \<open>Properties of \<^verbatim>\<open>load_vectors\<close>\<close>

text \<open>
  The comprehension returns a list exactly when the constructor accepts every pair, and
  then the list holds, position by position, what the constructor built.
\<close>

lemma ex_list_all2: "\<forall>x\<in>set xs. \<exists>p. P x p \<Longrightarrow> \<exists>ps. list_all2 P xs ps"
  by (induction xs) (auto simp add: list_all2_Cons1)

lemma protein_vectors_of_Inr:
  "protein_vectors_of protein_vector xs = Inr ps \<longleftrightarrow>
   list_all2 (\<lambda>x p. protein_vector (fst x) (snd x) = Inr p) xs ps"
proof (induction xs arbitrary: ps)
  case Nil
  show ?case by auto
next
  case (Cons x xs)
  obtain v s where x: "x = (v, s)" by (cases x)
  have "protein_vectors_of protein_vector (x # xs) = Inr ps \<longleftrightarrow>
        (\<exists>p zs. protein_vector v s = Inr p \<and>
                protein_vectors_of protein_vector xs = Inr zs \<and> ps = p # zs)"
    by (auto simp add: x split: sum.splits)
  then show ?case
    by (auto simp add: Cons.IH list_all2_Cons1 x)
qed

lemma load_vectors_returns:
  assumes "np_load file_path = Inr data" and "data ''embeddings'' = Some vectors"
  shows "load_vectors protein_vector np_load file_path sequence_list = Inr ps \<longleftrightarrow>
         length ps = min (length vectors) (length sequence_list) \<and>
         (\<forall>i<length ps. protein_vector (vectors ! i) (sequence_list ! i) = Inr (ps ! i))"
proof -
  let ?xs = "zip vectors sequence_list"
  have "load_vectors protein_vector np_load file_path sequence_list =
        protein_vectors_of protein_vector ?xs"
    using assms by (simp add: load_vectors_def)
  then have "load_vectors protein_vector np_load file_path sequence_list = Inr ps \<longleftrightarrow>
             length ?xs = length ps \<and>
             (\<forall>i<length ?xs. protein_vector (fst (?xs ! i)) (snd (?xs ! i)) = Inr (ps ! i))"
    by (simp only: protein_vectors_of_Inr list_all2_conv_all_nth)
  also have "\<dots> \<longleftrightarrow>
             length ps = length ?xs \<and>
             (\<forall>i<length ps. protein_vector (vectors ! i) (sequence_list ! i) = Inr (ps ! i))"
    by (auto simp add: min_def split: if_splits)
  finally show ?thesis by simp
qed

lemma load_vectors_raises:
  assumes "np_load file_path = Inr data" and "data ''embeddings'' = Some vectors"
    and "i < min (length vectors) (length sequence_list)"
    and "protein_vector (vectors ! i) (sequence_list ! i) = Inl e"
  shows "\<exists>e'. load_vectors protein_vector np_load file_path sequence_list = Inl e'"
proof (cases "load_vectors protein_vector np_load file_path sequence_list")
  case (Inl e')
  then show ?thesis by blast
next
  case (Inr ps)
  then have "protein_vector (vectors ! i) (sequence_list ! i) = Inr (ps ! i)"
    using load_vectors_returns [where np_load = np_load and file_path = file_path
        and data = data and vectors = vectors and protein_vector = protein_vector
        and ps = ps and sequence_list = sequence_list, OF assms(1) assms(2)] assms(3)
    by simp
  with assms(4) show ?thesis by simp
qed

text \<open>
  Claim C8, as stated, fails where the constructor raises: with the sequence list
  \<^verbatim>\<open>['A1', 'DE']\<close> the archive is read and holds three rows, yet \<^verbatim>\<open>load_vectors\<close>
  raises \<^verbatim>\<open>ValueError\<close> at the first pair and returns no list of length 2.
\<close>

theorem load_vectors_zip_counterexample:
  "example_np_load ''outputs/pdb_hits_output.npz'' = Inr example_data \<and>
   example_data ''embeddings'' = Some example_rows \<and>
   load_vectors skbio_protein_vector example_np_load ''outputs/pdb_hits_output.npz''
     [''A1'', ''DE''] = Inl ValueError \<and>
   \<not> (\<exists>ps. load_vectors skbio_protein_vector example_np_load ''outputs/pdb_hits_output.npz''
              [''A1'', ''DE''] = Inr ps \<and>
            length ps = min (length example_rows) (length [''A1'', ''DE'']))"
  by (simp add: load_vectors_def example_np_load_def example_data_def example_rows_def
      skbio_protein_vector_def protein_alphabet_def)

text \<open>
  Claim C8, amended.  When the archive is read, holds the field \<^verbatim>\<open>embeddings\<close>, and
  \<^verbatim>\<open>ProteinVector\<close> accepts the i-th vector with the i-th sequence at every position
  below the shorter length, \<^verbatim>\<open>load_vectors\<close> returns a list as long as the shorter of
  the vectors and the sequence list, whose i-th element is what \<^verbatim>\<open>ProteinVector\<close>
  built from the i-th vector and the i-th sequence.
\<close>

theorem load_vectors_zip:
  assumes "np_load file_path = Inr data" and "data ''embeddings'' = Some vectors"
    and "\<forall>i<min (length vectors) (length sequence_list).
           \<exists>p. protein_vector (vectors ! i) (sequence_list ! i) = Inr p"
  shows "\<exists>ps. load_vectors protein_vector np_load file_path sequence_list = Inr ps \<and>
              length ps = min (length vectors) (length sequence_list) \<and>
              (\<forall>i<length ps. protein_vector (vectors ! i) (sequence_list ! i) = Inr (ps ! i))"
proof -
  let ?xs = "zip vectors sequence_list"
  have "\<forall>x\<in>set ?xs. \<exists>p. protein_vector (fst x) (snd x) = Inr p"
    using assms(3) by (simp add: all_set_conv_all_nth)
  then obtain ps where "list_all2 (\<lambda>x p. protein_vector (fst x) (snd x) = Inr p) ?xs ps"
    using ex_list_all2 [of ?xs "\<lambda>x p. protein_vector (fst x) (snd x) = Inr p"] by blast
  then have r: "load_vectors protein_vector np_load file_path sequence_list = Inr ps"
    using assms(1,2) by (simp add: load_vectors_def protein_vectors_of_Inr)
  then show ?thesis
    using load_vectors_returns [where np_load = np_load and file_path = file_path
        and data = data and vectors = vectors and protein_vector = protein_vector
        and ps = ps and sequence_list = sequence_list, OF assms(1) assms(2)] by blast
qed

theorem load_vectors_zip_witness:
  "example_np_load ''outputs/pdb_hits_output.npz'' = Inr example_data \<and>
   example_data ''embeddings'' = Some example_rows \<and>
   skbio_protein_vector (example_rows ! 0) ([''MKV'', ''A C''] ! 0) = Inr ([1, 2], ''MKV'') \<and>
   skbio_protein_vector (example_rows ! 1) ([''MKV'', ''A C''] ! 1) = Inr ([3, 4], ''AC'') \<and>
   (\<exists>ps. load_vectors skbio_protein_vector example_np_load ''outputs/pdb_hits_output.npz''
            [''MKV'', ''A C''] = Inr ps \<and>
         length ps = min (length example_rows) (length [''MKV'', ''A C'']) \<and>
         (\<forall>i<length ps.
            skbio_protein_vector (example_rows ! i) ([''MKV'', ''A C''] ! i) = Inr (ps ! i)))"
proof -
  have h1: "example_np_load ''outputs/pdb_hits_output.npz'' = Inr example_data"
    by (simp add: example_np_load_def)
  have h2: "example_data ''embeddings'' = Some example_rows"
    by (simp add: example_data_def)
  have p0: "skbio_protein_vector (example_rows ! 0) ([''MKV'', ''A C''] ! 0) = Inr ([1, 2], ''MKV'')"
    by (simp add: skbio_protein_vector_def protein_alphabet_def example_rows_def)
  have p1: "skbio_protein_vector (example_rows ! 1) ([''MKV'', ''A C''] ! 1) = Inr ([3, 4], ''AC'')"
    by (simp add: skbio_protein_vector_def protein_alphabet_def example_rows_def)
  have n: "min (length example_rows) (length [''MKV'', ''A C'']) = Suc (Suc 0)"
    by (simp add: example_rows_def)
  have h3: "\<forall>i<min (length example_rows) (length [''MKV'', ''A C'']).
              \<exists>p. skbio_protein_vector (example_rows ! i) ([''MKV'', ''A C''] ! i) = Inr p"
    unfolding n using p0 p1 by (simp add: less_Suc_eq)
  show ?thesis
    using h1 h2 p0 p1
      load_vectors_zip [where np_load = example_np_load
        and file_path = "''outputs/pdb_hits_output.npz''" and data = example_data
        and vectors = example_rows and protein_vector = skbio_protein_vector
        and sequence_list = "[''MKV'', ''A C'']", OF h1 h2 h3]
    by blast
qed


section \<open>Properties of \<^verbatim>\<open>condense_cigar\<close>\<close>

subsection \<open>Decimal counts are read back\<close>

lemma lt_10_cases:
  "(d::nat) < 10 \<Longrightarrow> d = 0 \<or> d = 1 \<or> d = 2 \<or> d = 3 \<or> d = 4 \<or> d = 5 \<or> d = 6 \<or> d = 7 \<or> d = 8 \<or> d = 9"
  by arith

lemma is_digit_digit_char: "d < 10 \<Longrightarrow> is_digit (digit_char d)"
  by (drule lt_10_cases) (auto simp add: is_digit_def digit_char_def)

lemma digit_val_digit_char: "d < 10 \<Longrightarrow> digit_val (digit_char d) = d"
  by (drule lt_10_cases) (auto simp add: digit_val_def digit_char_def)

lemma expand_from_str_nat: "expand_from 0 (str_nat n @ rest) = expand_from n rest"
proof (induction n arbitrary: rest rule: str_nat.induct)
  case (1 n)
  show ?case
  proof (cases "n < 10")
    case True
    then show ?thesis
      by (simp add: str_nat.simps [of n] is_digit_digit_char digit_val_digit_char)
  next
    case False
    have d: "n mod 10 < 10" by simp
    have "expand_from 0 (str_nat n @ rest) =
          expand_from 0 (str_nat (n div 10) @ digit_char (n mod 10) # rest)"
      using False by (simp add: str_nat.simps [of n])
    also have "\<dots> = expand_from (n div 10) (digit_char (n mod 10) # rest)"
      using False by (rule "1.IH")
    also have "\<dots> = expand_from (10 * (n div 10) + n mod 10) rest"
      using d by (simp add: is_digit_digit_char digit_val_digit_char)
    finally show ?thesis by simp
  qed
qed

lemma expand_from_token:
  "\<not> is_digit (snd t) \<Longrightarrow>
   expand_from 0 (render_token t @ rest) = replicate (fst t) (snd t) @ expand_from 0 rest"
  using expand_from_str_nat [of "fst t" "snd t # rest"]
  by (simp add: render_token_def str_int_def)

lemma expand_render_tokens:
  "\<forall>t\<in>set ts. \<not> is_digit (snd t) \<Longrightarrow>
   expand_cigar (render_tokens ts) = concat (map (\<lambda>t. replicate (fst t) (snd t)) ts)"
  unfolding expand_cigar_def render_tokens_def
  by (induction ts) (simp_all add: expand_from_token)

subsection \<open>Runs of a string\<close>

lemma runs_from_expand:
  "concat (map (\<lambda>t. replicate (fst t) (snd t)) (runs_from c n xs)) = replicate n c @ xs"
  by (induction c n xs rule: runs_from.induct) (simp_all add: replicate_app_Cons_same)

lemma runs_from_symbols: "snd ` set (runs_from c n xs) \<subseteq> insert c (set xs)"
  by (induction c n xs rule: runs_from.induct) auto

lemma runs_from_counts: "0 < n \<Longrightarrow> \<forall>t\<in>set (runs_from c n xs). 1 \<le> fst t"
  by (induction c n xs rule: runs_from.induct) auto

lemma runs_from_sum: "sum_list (map fst (runs_from c n xs)) = n + length xs"
  by (induction c n xs rule: runs_from.induct) auto

lemma runs_from_nonempty: "runs_from c n xs \<noteq> []"
  by (induction c n xs rule: runs_from.induct) auto

lemma runs_from_hd: "snd (hd (runs_from c n xs)) = c"
  by (induction c n xs rule: runs_from.induct) auto

lemma runs_from_distinct_adj: "distinct_adj (map snd (runs_from c n xs))"
  by (induction c n xs rule: runs_from.induct)
     (auto simp add: distinct_adj_Cons runs_from_hd runs_from_nonempty hd_map)

subsection \<open>The loop writes the runs\<close>

text \<open>
  With a run of \<open>n > 0\<close> characters \<open>c\<close> pending, running the loop over \<open>xs\<close> and
  appending the last run writes exactly the runs of \<open>xs\<close> after what was written before.
\<close>

lemma fold_condense_body:
  assumes "0 < n"
  shows "(let st = fold condense_body xs \<lparr>condensed_cigar = out, current_state = [c], count = int n\<rparr>
          in condensed_cigar st @ str_int (count st) @ current_state st)
         = out @ render_tokens (runs_from c n xs)"
  using assms
proof (induction xs arbitrary: out c n)
  case Nil
  then show ?case by (simp add: render_tokens_def render_token_def)
next
  case (Cons x xs)
  show ?case
  proof (cases "x = c")
    case True
    have "condense_body x \<lparr>condensed_cigar = out, current_state = [c], count = int n\<rparr>
          = \<lparr>condensed_cigar = out, current_state = [c], count = int (Suc n)\<rparr>"
      using True by (simp add: condense_body_def)
    then show ?thesis
      using Cons.IH [of "Suc n" out c] True by simp
  next
    case False
    have "condense_body x \<lparr>condensed_cigar = out, current_state = [c], count = int n\<rparr>
          = \<lparr>condensed_cigar = out @ render_token (n, c), current_state = [x], count = int 1\<rparr>"
      using False Cons.prems by (simp add: condense_body_def render_token_def)
    then show ?thesis
      using Cons.IH [of 1 "out @ render_token (n, c)" x] False
      by (simp add: render_tokens_def)
  qed
qed

lemma fold_index: "fold (\<lambda>i. f (s ! i)) [0..<length s] = fold f s"
proof -
  have "fold f (map ((!) s) [0..<length s]) = fold (f \<circ> (!) s) [0..<length s]"
    by (rule fold_map)
  then show ?thesis by (simp add: map_nth comp_def)
qed

lemma condense_cigar_fold:
  "condense_cigar s =
     (let st = fold condense_body s \<lparr>condensed_cigar = [], current_state = [], count = 0\<rparr>
      in condensed_cigar st @ str_int (count st) @ current_state st)"
  by (simp add: condense_cigar_def fold_index)

lemma condense_cigar_runs:
  assumes "s \<noteq> []"
  shows "condense_cigar s = render_tokens (cigar_runs s)"
proof -
  from assms obtain c cs where s: "s = c # cs" by (cases s) auto
  have "condense_body c \<lparr>condensed_cigar = [], current_state = [], count = 0\<rparr>
        = \<lparr>condensed_cigar = [], current_state = [c], count = int 1\<rparr>"
    by (simp add: condense_body_def)
  then show ?thesis
    using fold_condense_body [of 1 cs "[]" c]
    by (simp add: condense_cigar_fold s cigar_runs_def)
qed

subsection \<open>Claims about \<^verbatim>\<open>condense_cigar\<close>\<close>

text \<open>
  Claim C1.  For every non-empty string over the alphabet \<^verbatim>\<open>M\<close>, \<^verbatim>\<open>I\<close>, \<^verbatim>\<open>D\<close>,
  expanding the output of \<^verbatim>\<open>condense_cigar\<close> (each count-symbol token replaced by that
  many repetitions of its symbol) gives back the input.
\<close>

theorem condense_cigar_roundtrip:
  assumes "s \<noteq> []" and "set s \<subseteq> {CHR ''M'', CHR ''I'', CHR ''D''}"
  shows "expand_cigar (condense_cigar s) = s"
proof -
  from assms(1) obtain c cs where s: "s = c # cs" by (cases s) auto
  have "snd ` set (cigar_runs s) \<subseteq> {CHR ''M'', CHR ''I'', CHR ''D''}"
    using runs_from_symbols [of c 1 cs] assms(2) by (auto simp add: s cigar_runs_def)
  then have "\<forall>t\<in>set (cigar_runs s). \<not> is_digit (snd t)"
    by (auto simp add: is_digit_def)
  then have "expand_cigar (render_tokens (cigar_runs s)) =
             concat (map (\<lambda>t. replicate (fst t) (snd t)) (cigar_runs s))"
    by (rule expand_render_tokens)
  also have "\<dots> = s"
    by (simp add: s cigar_runs_def runs_from_expand)
  finally show ?thesis
    by (simp add: condense_cigar_runs [OF assms(1)])
qed

theorem condense_cigar_roundtrip_witness:
  "''MMMIIIID'' \<noteq> [] \<and> set ''MMMIIIID'' \<subseteq> {CHR ''M'', CHR ''I'', CHR ''D''} \<and>
   expand_cigar (condense_cigar ''MMMIIIID'') = ''MMMIIIID''"
proof -
  have h1: "''MMMIIIID'' \<noteq> []" by simp
  have h2: "set ''MMMIIIID'' \<subseteq> {CHR ''M'', CHR ''I'', CHR ''D''}" by simp
  show ?thesis using h1 h2 condense_cigar_roundtrip [OF h1 h2] by blast
qed

text \<open>
  Claim C2.  On the empty string \<^verbatim>\<open>condense_cigar\<close> returns \<^verbatim>\<open>"0"\<close>: the counter, still
  zero, is appended with the empty current state, so the result is one zero-count token
  and not the empty string.
\<close>

theorem condense_cigar_empty:
  "condense_cigar [] = ''0'' \<and> condense_cigar [] = str_int 0 @ [] \<and> condense_cigar [] \<noteq> []"
  by (simp add: condense_cigar_def str_int_def str_nat.simps digit_char_def)

text \<open>Claim C5.  \<^verbatim>\<open>condense_cigar("MMMIIII")\<close> is \<^verbatim>\<open>"3M4I"\<close>.\<close>

theorem condense_cigar_example: "condense_cigar ''MMMIIII'' = ''3M4I''"
  by (simp add: condense_cigar_def condense_body_def str_int_def str_nat.simps digit_char_def)

text \<open>
  Claim C6.  \<^verbatim>\<open>tm_to_cigar("::::11112222")\<close> is \<^verbatim>\<open>"MMMMIIIIDDDD"\<close>, and
  \<^verbatim>\<open>condense_cigar\<close> of that result is \<^verbatim>\<open>"4M4I4D"\<close>.
\<close>

theorem tm_to_cigar_then_condense_example:
  "tm_to_cigar ''::::11112222'' False = ''MMMMIIIIDDDD'' \<and>
   condense_cigar (tm_to_cigar ''::::11112222'' False) = ''4M4I4D''"
proof
  show t: "tm_to_cigar ''::::11112222'' False = ''MMMMIIIIDDDD''"
    by (simp add: tm_to_cigar_def tm_body_def)
  show "condense_cigar (tm_to_cigar ''::::11112222'' False) = ''4M4I4D''"
    unfolding t
    by (simp add: condense_cigar_def condense_body_def str_int_def str_nat.simps digit_char_def)
qed

text \<open>
  Claim C10.  For every non-empty input, the output of \<^verbatim>\<open>condense_cigar\<close> is a sequence
  of count-symbol tokens in which every count is at least 1, consecutive tokens carry
  different symbols, and the counts sum to the length of the input.
\<close>

theorem condense_cigar_tokens:
  assumes "s \<noteq> []"
  shows "\<exists>ts. condense_cigar s = render_tokens ts \<and>
              (\<forall>t\<in>set ts. 1 \<le> fst t) \<and>
              (\<forall>i. Suc i < length ts \<longrightarrow> snd (ts ! i) \<noteq> snd (ts ! Suc i)) \<and>
              sum_list (map fst ts) = length s"
proof -
  from assms obtain c cs where s: "s = c # cs" by (cases s) auto
  let ?ts = "cigar_runs s"
  have ts: "?ts = runs_from c 1 cs" by (simp add: s cigar_runs_def)
  have "condense_cigar s = render_tokens ?ts"
    by (rule condense_cigar_runs [OF assms])
  moreover have "\<forall>t\<in>set ?ts. 1 \<le> fst t"
    unfolding ts by (rule runs_from_counts) simp
  moreover have "\<forall>i. Suc i < length ?ts \<longrightarrow> snd (?ts ! i) \<noteq> snd (?ts ! Suc i)"
    using runs_from_distinct_adj [of c 1 cs]
    unfolding ts by (simp add: distinct_adj_conv_nth)
  moreover have "sum_list (map fst ?ts) = length s"
    unfolding ts by (simp add: runs_from_sum s)
  ultimately show ?thesis by blast
qed

theorem condense_cigar_tokens_witness:
  "''MMMIIII'' \<noteq> [] \<and>
   (\<exists>ts. condense_cigar ''MMMIIII'' = render_tokens ts \<and>
         (\<forall>t\<in>set ts. 1 \<le> fst t) \<and>
         (\<forall>i. Suc i < length ts \<longrightarrow> snd (ts ! i) \<noteq> snd (ts ! Suc i)) \<and>
         sum_list (map fst ts) = length ''MMMIIII'')"
proof -
  have h: "''MMMIIII'' \<noteq> []" by simp
  show ?thesis using h condense_cigar_tokens [OF h] by blast
qed

end
